theory Spec2Isabelle
  imports Main "HOL-Library.Sublist" "HOL-Library.List_Lexorder" "HOL-Library.Char_ord"
begin

section \<open>Python string primitives used by \<^verbatim>\<open>database_api.py\<close>\<close>

text \<open>
  Strings are byte lists. The characters that cannot be written inside a literal are
  named here: the apostrophe, the double quote, the backslash, and the control
  characters that \<^verbatim>\<open>repr\<close> of a \<^verbatim>\<open>bytes\<close> object escapes by letter.
\<close>

definition squote :: char where "squote = CHR 0x27"
definition dquote :: char where "dquote = CHR 0x22"
definition backslash :: char where "backslash = CHR 0x5C"
definition newline :: char where "newline = CHR 0x0A"
definition tab :: char where "tab = CHR 0x09"
definition creturn :: char where "creturn = CHR 0x0D"

subsection \<open>Decimal formatting and parsing\<close>

definition digit_char :: "nat \<Rightarrow> char" where
  "digit_char d = char_of (48 + d)"

text \<open>\<^verbatim>\<open>str(n)\<close> for a non-negative integer \<open>n\<close>.\<close>

function dec :: "nat \<Rightarrow> string" where
  "dec n = (if n < 10 then [digit_char n] else dec (n div 10) @ [digit_char (n mod 10)])"
  by pat_completeness auto
termination
  by (relation "measure id") auto

declare dec.simps [simp del]

text \<open>
  The format \<^verbatim>\<open>f'{file_nr:05d}'\<close> for a non-negative integer: the decimal digits,
  padded with zeros on the left to a width of five; a number of six or more digits is
  not truncated.
\<close>

definition fmt05 :: "nat \<Rightarrow> string" where
  "fmt05 n = replicate (5 - length (dec n)) CHR ''0'' @ dec n"

definition is_digit :: "char \<Rightarrow> bool" where
  "is_digit c = (CHR ''0'' \<le> c \<and> c \<le> CHR ''9'')"

definition digit_val :: "char \<Rightarrow> nat" where
  "digit_val c = of_char c - 48"

text \<open>
  \<^verbatim>\<open>int(file_nr)\<close> on a string. The model covers the strings the program stores: a
  non-empty run of decimal digits gives its value, every other string is the branch
  \<open>None\<close>, where Python raises \<^verbatim>\<open>ValueError\<close>. (Python's \<^verbatim>\<open>int\<close> also reads a sign,
  surrounding blanks and underscores between digits; none of these is ever written
  to the \<^verbatim>\<open>file_nr\<close> column by \<^verbatim>\<open>download_files\<close>, see \<open>wf_store\<close> below.)
\<close>

definition py_int :: "string \<Rightarrow> nat option" where
  "py_int s = (if s \<noteq> [] \<and> list_all is_digit s
               then Some (foldl (\<lambda>a c. 10 * a + digit_val c) 0 s) else None)"

subsection \<open>\<^verbatim>\<open>str.replace\<close>, \<^verbatim>\<open>str.startswith\<close> and \<^verbatim>\<open>str(bytes)\<close>\<close>

text \<open>
  \<^verbatim>\<open>s.replace(old, new)\<close>: every non-overlapping occurrence of \<open>old\<close>, found from the
  left, is replaced. With an empty \<open>old\<close> Python puts \<open>new\<close> before every character
  and at the end.
\<close>

function py_replace :: "string \<Rightarrow> string \<Rightarrow> string \<Rightarrow> string" where
  "py_replace old new s =
     (if old = [] then new @ concat (map (\<lambda>c. c # new) s)
      else if s = [] then []
      else if prefix old s then new @ py_replace old new (drop (length old) s)
      else hd s # py_replace old new (tl s))"
  by pat_completeness auto
termination
  by (relation "measure (\<lambda>(old, new, s). length s)") auto

declare py_replace.simps [simp del]

definition startswith :: "string \<Rightarrow> string \<Rightarrow> bool" where
  "startswith s p = prefix p s"

text \<open>
  \<^verbatim>\<open>str(line)\<close> of a \<^verbatim>\<open>bytes\<close> object is its \<^verbatim>\<open>repr\<close>: the letter b, a quote, the
  escaped bytes, the quote again. The quote is the apostrophe unless the bytes hold
  an apostrophe and no double quote.
\<close>

definition bytes_quote :: "string \<Rightarrow> char" where
  "bytes_quote bs = (if squote \<in> set bs \<and> dquote \<notin> set bs then dquote else squote)"

definition hex_digit :: "nat \<Rightarrow> char" where
  "hex_digit d = (if d < 10 then char_of (48 + d) else char_of (87 + d))"

definition bytes_escape :: "char \<Rightarrow> char \<Rightarrow> string" where
  "bytes_escape q c =
     (if c = q \<or> c = backslash then [backslash, c]
      else if c = tab then [backslash, CHR ''t'']
      else if c = newline then [backslash, CHR ''n'']
      else if c = creturn then [backslash, CHR ''r'']
      else if (of_char c :: nat) < 32 \<or> (of_char c :: nat) \<ge> 127
        then [backslash, CHR ''x'', hex_digit (of_char c div 16), hex_digit (of_char c mod 16)]
      else [c])"

definition str_bytes :: "string \<Rightarrow> string" where
  "str_bytes bs = (let q = bytes_quote bs
                   in [CHR ''b'', q] @ concat (map (bytes_escape q) bs) @ [q])"

section \<open>The signature store\<close>

text \<open>
  A row of the table \<^verbatim>\<open>signatures\<close> is a pair \<^verbatim>\<open>(hash, file_nr)\<close> of strings, as
  \<^verbatim>\<open>download_files\<close> builds it. The connection of \<^verbatim>\<open>HashAPI\<close> has two views of the
  table: the rows it sees itself, including those of its open transaction, and the
  rows already committed, which are what survives the end of the process.
\<close>

type_synonym row = "string \<times> string"

record conn =
  committed :: "row list"
  visible :: "row list"

datatype exn = IntegrityError | HTTPError nat | URLError | ValueError

text \<open>\<^verbatim>\<open>init_table\<close> on a new database file: the table exists and has no row.\<close>

definition init_table :: conn where
  "init_table = \<lparr>committed = [], visible = []\<rparr>"

text \<open>
  \<^verbatim>\<open>executemany('INSERT INTO signatures(hash, file_nr) VALUES(?, ?)', hashes)\<close>: one
  plain \<^verbatim>\<open>INSERT\<close> for each pair, in order. The column \<^verbatim>\<open>hash\<close> is the primary key,
  so the statement for a hash that the connection already sees fails with
  \<^verbatim>\<open>IntegrityError\<close>; the rows inserted before it stay in the open transaction and
  the pairs after it are never tried.
\<close>

fun executemany :: "row list \<Rightarrow> row list \<Rightarrow> exn option \<times> row list" where
  "executemany [] rows = (None, rows)"
| "executemany (r # rest) rows =
     (if fst r \<in> fst ` set rows then (Some IntegrityError, rows)
      else executemany rest (rows @ [r]))"

definition commit :: "conn \<Rightarrow> conn" where
  "commit c = c\<lparr>committed := visible c\<rparr>"

text \<open>
  \<^verbatim>\<open>insert_hashes\<close>: \<^verbatim>\<open>executemany\<close>, then \<^verbatim>\<open>commit\<close>; an \<^verbatim>\<open>sqlite3.Error\<close> is printed
  and the method returns normally, without commit and without rollback.
\<close>

definition insert_hashes :: "row list \<Rightarrow> conn \<Rightarrow> conn" where
  "insert_hashes hashes c =
     (case executemany hashes (visible c) of
        (None, rows) \<Rightarrow> commit (c\<lparr>visible := rows\<rparr>)
      | (Some e, rows) \<Rightarrow> c\<lparr>visible := rows\<rparr>)"

definition hash_exists :: "string \<Rightarrow> conn \<Rightarrow> bool" where
  "hash_exists h c = (filter (\<lambda>r. fst r = h) (visible c) \<noteq> [])"

text \<open>
  \<^verbatim>\<open>SELECT file_nr FROM signatures ORDER BY file_nr DESC LIMIT 1\<close>: the column is text,
  so the order is the order of strings, byte by byte.
\<close>

definition select_latest :: "row list \<Rightarrow> string list" where
  "select_latest rows = take 1 (rev (sort (map snd rows)))"

text \<open>
  \<^verbatim>\<open>get_latest_file_nr\<close>: \<^verbatim>\<open>fetchone()\<close> is \<^verbatim>\<open>None\<close> on an empty result, joining over it
  raises \<^verbatim>\<open>TypeError\<close>, and the handler returns \<^verbatim>\<open>"00000"\<close>.
\<close>

definition get_latest_file_nr :: "conn \<Rightarrow> string" where
  "get_latest_file_nr c =
     (case select_latest (visible c) of [] \<Rightarrow> ''00000'' | nr # _ \<Rightarrow> nr)"

text \<open>The end of the process: the open transaction is lost.\<close>

definition restart :: "conn \<Rightarrow> conn" where
  "restart c = c\<lparr>visible := committed c\<rparr>"

section \<open>The remote catalog\<close>

datatype response = Found "string list" | HTTPErr nat | URLErr

type_synonym catalog = "string \<Rightarrow> response"

text \<open>
  The state of a run: the connection, the URLs requested with \<^verbatim>\<open>urlopen\<close> so far, and
  the batches passed to \<^verbatim>\<open>insert_hashes\<close> so far.
\<close>

record world =
  db :: conn
  fetched :: "string list"
  batches :: "row list list"

definition filename_of :: "string \<Rightarrow> string" where
  "filename_of file_nr = ''VirusShare_'' @ file_nr @ ''.md5''"

definition url_of :: "string \<Rightarrow> string" where
  "url_of file_nr = ''https://virusshare.com/hashfiles/'' @ filename_of file_nr"

definition urlopen :: "catalog \<Rightarrow> string \<Rightarrow> world \<Rightarrow> response \<times> world" where
  "urlopen cat url w = (cat url, w\<lparr>fetched := fetched w @ [url]\<rparr>)"

section \<open>The synchronization engine\<close>

text \<open>\<^verbatim>\<open>str(line).replace("b'", "").replace("\\n'", "")\<close>\<close>

definition clean_line :: "string \<Rightarrow> string" where
  "clean_line line =
     py_replace [backslash, CHR ''n'', squote] []
       (py_replace [CHR ''b'', squote] [] (str_bytes line))"

fun collect_hashes :: "string list \<Rightarrow> string \<Rightarrow> row list" where
  "collect_hashes [] file_nr = []"
| "collect_hashes (line # rest) file_nr =
     (let line_n = clean_line line
      in if \<not> startswith line_n ''#'' then (line_n, file_nr) # collect_hashes rest file_nr
         else collect_hashes rest file_nr)"

definition check_latest_file :: "catalog \<Rightarrow> string \<Rightarrow> world \<Rightarrow> (exn + bool) \<times> world" where
  "check_latest_file cat file_nr w =
     (case py_int file_nr of
        None \<Rightarrow> (Inl ValueError, w)
      | Some n \<Rightarrow>
          (case urlopen cat (url_of (fmt05 (n + 1))) w of
             (Found ls, w') \<Rightarrow> (Inr False, w')
           | (HTTPErr code, w') \<Rightarrow> (Inl (HTTPError code), w')
           | (URLErr, w') \<Rightarrow> (Inl URLError, w')))"

text \<open>
  \<^verbatim>\<open>db_is_updated\<close> returns \<^verbatim>\<open>True\<close>, \<^verbatim>\<open>False\<close> or, where the handler of \<^verbatim>\<open>HTTPError\<close>
  finds a code other than 404 and falls off the end of the function, \<^verbatim>\<open>None\<close>.
\<close>

definition db_is_updated :: "catalog \<Rightarrow> world \<Rightarrow> (exn + bool option) \<times> world" where
  "db_is_updated cat w =
     (let file_nr = get_latest_file_nr (db w)
      in if file_nr = ''None'' then (Inr (Some False), w)
         else (case check_latest_file cat file_nr w of
                 (Inr b, w') \<Rightarrow> (Inr (Some b), w')
               | (Inl (HTTPError code), w') \<Rightarrow>
                   if code = 404 then (Inr (Some True), w') else (Inr None, w')
               | (Inl URLError, w') \<Rightarrow> (Inr (Some True), w')
               | (Inl e, w') \<Rightarrow> (Inl e, w')))"

text \<open>The truth value Python gives the result in \<^verbatim>\<open>if not self.db_is_updated()\<close>.\<close>

fun truthy :: "bool option \<Rightarrow> bool" where
  "truthy None = False"
| "truthy (Some b) = b"

text \<open>
  The \<^verbatim>\<open>while True\<close> loop of \<^verbatim>\<open>download_files\<close>. It ends when \<^verbatim>\<open>urlopen\<close> raises: an
  \<^verbatim>\<open>HTTPError\<close> of any code breaks the loop, any other \<^verbatim>\<open>URLError\<close> is not handled
  and leaves the method, as does the \<^verbatim>\<open>ValueError\<close> of \<^verbatim>\<open>int(file_nr)\<close>. While the
  catalog answers with a file the loop goes on, so the result is an option.
\<close>

partial_function (option) download_loop ::
  "catalog \<Rightarrow> string \<Rightarrow> world \<Rightarrow> ((exn + unit) \<times> world) option" where
  "download_loop cat file_nr w =
     (case urlopen cat (url_of file_nr) w of
        (Found ls, w1) \<Rightarrow>
          (let hashes = collect_hashes ls file_nr;
               w2 = w1\<lparr>db := insert_hashes hashes (db w1), batches := batches w1 @ [hashes]\<rparr>
           in case py_int file_nr of
                None \<Rightarrow> Some (Inl ValueError, w2)
              | Some n \<Rightarrow> download_loop cat (fmt05 (n + 1)) w2)
      | (HTTPErr code, w1) \<Rightarrow> Some (Inr (), w1)
      | (URLErr, w1) \<Rightarrow> Some (Inl URLError, w1))"

definition download_files :: "catalog \<Rightarrow> world \<Rightarrow> ((exn + unit) \<times> world) option" where
  "download_files cat w =
     (case db_is_updated cat w of
        (Inl e, w1) \<Rightarrow> Some (Inl e, w1)
      | (Inr r, w1) \<Rightarrow>
          if \<not> truthy r then download_loop cat (get_latest_file_nr (db w1)) w1
          else Some (Inr (), w1))"

declare download_loop.simps [code]

section \<open>Notions used to state the properties\<close>

text \<open>The value of a digit string, as \<open>py_int\<close> computes it.\<close>

definition dval :: "string \<Rightarrow> nat" where
  "dval s = foldl (\<lambda>a c. 10 * a + digit_val c) 0 s"

text \<open>The last \<open>k\<close> decimal digits of \<open>n\<close>, most significant first.\<close>

fun padk :: "nat \<Rightarrow> nat \<Rightarrow> string" where
  "padk 0 n = []"
| "padk (Suc k) n = padk k (n div 10) @ [digit_char (n mod 10)]"

definition is_found :: "response \<Rightarrow> bool" where
  "is_found r = (case r of Found ls \<Rightarrow> True | _ \<Rightarrow> False)"

text \<open>How the loop ends on the first answer that is not a file.\<close>

definition loop_outcome :: "response \<Rightarrow> exn + unit" where
  "loop_outcome r = (case r of URLErr \<Rightarrow> Inl URLError | _ \<Rightarrow> Inr ())"

text \<open>
  A \<^verbatim>\<open>file_nr\<close> as the program writes it: the \<^verbatim>\<open>05d\<close> format of a number. The shard
  index of a row is that number.
\<close>

definition wf_nr :: "string \<Rightarrow> bool" where
  "wf_nr nr = (case py_int nr of None \<Rightarrow> False | Some n \<Rightarrow> fmt05 n = nr)"

definition shard_index :: "row \<Rightarrow> nat" where
  "shard_index r = (case py_int (snd r) of None \<Rightarrow> 0 | Some n \<Rightarrow> n)"

definition wf_store :: "conn \<Rightarrow> bool" where
  "wf_store c = (list_all (\<lambda>r. wf_nr (snd r)) (visible c)
               \<and> list_all (\<lambda>r. wf_nr (snd r)) (committed c))"

definition unique_hashes :: "conn \<Rightarrow> bool" where
  "unique_hashes c = (distinct (map fst (visible c)) \<and> distinct (map fst (committed c)))"

definition start_world :: "conn \<Rightarrow> world" where
  "start_world c = \<lparr>db = c, fetched = [], batches = []\<rparr>"

text \<open>
  The store states the program reaches: the new table, the state a run of
  \<^verbatim>\<open>download_files\<close> leaves behind, whether it returned or raised, against any catalog,
  and the state found again after the process has ended.
\<close>

inductive reachable :: "conn \<Rightarrow> bool" where
  reach_init: "reachable init_table"
| reach_run: "reachable c \<Longrightarrow> download_files cat (start_world c) = Some (r, w') \<Longrightarrow> reachable (db w')"
| reach_restart: "reachable c \<Longrightarrow> reachable (restart c)"

text \<open>
  A plain character: printable ASCII other than the apostrophe and the backslash, so
  that \<^verbatim>\<open>repr\<close> leaves it as it is and keeps the apostrophe as the quote.
\<close>

definition plain_char :: "char \<Rightarrow> bool" where
  "plain_char c = (32 \<le> (of_char c :: nat) \<and> (of_char c :: nat) < 127
                   \<and> c \<noteq> squote \<and> c \<noteq> backslash)"

subsection \<open>Example catalogs and stores\<close>

text \<open>
  Three shards: the first has a comment line, the second repeats a hash of the first
  in its middle.
\<close>

definition shard0 :: "string list" where
  "shard0 = [''# c'' @ [newline], ''h1'' @ [newline], ''h2'' @ [newline]]"

definition shard1 :: "string list" where
  "shard1 = [''h3'' @ [newline], ''h1'' @ [newline], ''h4'' @ [newline]]"

definition shard2 :: "string list" where
  "shard2 = [''h5'' @ [newline]]"

text \<open>A catalog that publishes the files 00000 and 00001 and answers 404 elsewhere.\<close>

definition two_shards :: "string list \<Rightarrow> string list \<Rightarrow> catalog" where
  "two_shards ls0 ls1 u =
     (if u = url_of ''00000'' then Found ls0
      else if u = url_of ''00001'' then Found ls1
      else HTTPErr 404)"

definition ex_cat :: catalog where
  "ex_cat = two_shards shard0 shard1"

text \<open>The same catalog once the file 00002 has been published.\<close>

definition ex_cat2 :: catalog where
  "ex_cat2 u = (if u = url_of ''00002'' then Found shard2 else ex_cat u)"

text \<open>A catalog whose server fails with status 500 for the file 00001.\<close>

definition ex_cat_err :: catalog where
  "ex_cat_err u =
     (if u = url_of ''00000'' then Found shard0
      else if u = url_of ''00001'' then HTTPErr 500
      else HTTPErr 404)"

text \<open>The store after the first shard, and the store a run against \<open>ex_cat\<close> leaves.\<close>

definition ex_db0 :: conn where
  "ex_db0 = \<lparr>committed = [(''h1'', ''00000''), (''h2'', ''00000'')],
             visible = [(''h1'', ''00000''), (''h2'', ''00000'')]\<rparr>"

definition ex_db1 :: conn where
  "ex_db1 = \<lparr>committed = [(''h1'', ''00000''), (''h2'', ''00000'')],
             visible = [(''h1'', ''00000''), (''h2'', ''00000''), (''h3'', ''00001'')]\<rparr>"

definition ex_w1 :: world where
  "ex_w1 = \<lparr>db = ex_db1,
            fetched = [url_of ''00001'', url_of ''00000'', url_of ''00001'', url_of ''00002''],
            batches = [[(''h1'', ''00000''), (''h2'', ''00000'')],
                       [(''h3'', ''00001''), (''h1'', ''00001''), (''h4'', ''00001'')]]\<rparr>"

section \<open>Decimal strings\<close>

lemma of_char_digit_char: "d < 10 \<Longrightarrow> (of_char (digit_char d) :: nat) = 48 + d"
  by (simp add: digit_char_def)

lemma is_digit_digit_char: "d < 10 \<Longrightarrow> is_digit (digit_char d)"
  by (simp add: is_digit_def less_eq_char_def of_char_digit_char)

lemma digit_val_digit_char: "d < 10 \<Longrightarrow> digit_val (digit_char d) = d"
  by (simp add: digit_val_def of_char_digit_char)

lemma digit_char_0: "digit_char 0 = CHR ''0''"
  by code_simp

lemma digit_char_less: "a < b \<Longrightarrow> b < 10 \<Longrightarrow> digit_char a < digit_char b"
  by (simp add: less_char_def of_char_digit_char)


lemma dec_ne: "dec n \<noteq> []"
  by (subst dec.simps) simp

lemma dec_digits: "list_all is_digit (dec n)"
proof (induction n rule: dec.induct)
  case (1 n)
  show ?case
  proof (cases "n < 10")
    case True
    then show ?thesis by (subst dec.simps) (simp add: is_digit_digit_char)
  next
    case False
    with 1 show ?thesis by (subst dec.simps) (simp add: is_digit_digit_char)
  qed
qed

lemma dval_dec: "dval (dec n) = n"
proof (induction n rule: dec.induct)
  case (1 n)
  show ?case
  proof (cases "n < 10")
    case True
    then show ?thesis by (subst dec.simps) (simp add: dval_def digit_val_digit_char)
  next
    case False
    with 1 show ?thesis by (subst dec.simps) (simp add: dval_def digit_val_digit_char)
  qed
qed

lemma dval_zeros: "dval (replicate k CHR ''0'' @ s) = dval s"
proof -
  have "foldl (\<lambda>a c. 10 * a + digit_val c) 0 (replicate k CHR ''0'') = 0"
    by (induction k) (simp_all add: digit_val_def)
  then show ?thesis by (simp add: dval_def)
qed

lemma is_digit_0: "is_digit CHR ''0''"
  by (simp add: is_digit_def)

lemma fmt05_digits: "list_all is_digit (fmt05 n)"
  using dec_digits [of n] by (auto simp add: fmt05_def list_all_iff is_digit_0)

lemma fmt05_ne: "fmt05 n \<noteq> []"
  by (simp add: fmt05_def dec_ne)

lemma py_int_fmt05: "py_int (fmt05 n) = Some n"
proof -
  have "dval (fmt05 n) = n"
    by (simp add: fmt05_def dval_zeros dval_dec)
  then show ?thesis
    by (simp add: py_int_def fmt05_digits fmt05_ne dval_def)
qed

lemma fmt05_inj: "fmt05 m = fmt05 n \<Longrightarrow> m = n"
  by (metis option.inject py_int_fmt05)

lemma fmt05_not_None: "fmt05 n \<noteq> ''None''"
proof -
  have "\<not> list_all is_digit ''None''" by code_simp
  then show ?thesis by (metis fmt05_digits)
qed


lemma length_padk: "length (padk k n) = k"
  by (induction k arbitrary: n) simp_all

lemma padk_zero: "padk k 0 = replicate k CHR ''0''"
  by (induction k) (simp_all add: digit_char_0 replicate_append_same)

lemma pad_dec: "n < 10 ^ k \<Longrightarrow> 0 < k \<Longrightarrow> replicate (k - length (dec n)) CHR ''0'' @ dec n = padk k n"
proof (induction k arbitrary: n)
  case 0
  then show ?case by simp
next
  case (Suc k)
  show ?case
  proof (cases "n < 10")
    case True
    then have "dec n = [digit_char n]" by (subst dec.simps) simp
    with True show ?thesis by (simp add: padk_zero)
  next
    case False
    then have d: "dec n = dec (n div 10) @ [digit_char (n mod 10)]" by (subst dec.simps) simp
    from False Suc.prems have k: "0 < k" by (cases k) auto
    from Suc.prems have "n div 10 < 10 ^ k" by (simp add: less_mult_imp_div_less mult.commute)
    from Suc.IH [OF this k] show ?thesis by (simp add: d)
  qed
qed

lemma snoc_less:
  "length xs = length ys \<Longrightarrow> (xs @ [a] < ys @ [b]) = (xs < ys \<or> xs = ys \<and> a < (b::'a::linorder))"
  by (induction xs ys rule: list_induct2) auto

lemma padk_mono: "m < n \<Longrightarrow> n < 10 ^ k \<Longrightarrow> padk k m < padk k n"
proof (induction k arbitrary: m n)
  case 0
  then show ?case by simp
next
  case (Suc k)
  have n: "n div 10 < 10 ^ k" using Suc.prems by (simp add: less_mult_imp_div_less mult.commute)
  from Suc.prems(1) consider "m div 10 < n div 10" | "m div 10 = n div 10" "m mod 10 < n mod 10"
    by (metis div_le_mono le_neq_implies_less less_imp_le mod_div_decomp nat_add_left_cancel_less)
  then show ?case
  proof cases
    case 1
    from Suc.IH [OF 1 n] show ?thesis by (simp add: snoc_less length_padk)
  next
    case 2
    then show ?thesis by (simp add: snoc_less length_padk digit_char_less)
  qed
qed

lemma fmt05_padk: "n < 100000 \<Longrightarrow> fmt05 n = padk 5 n"
  using pad_dec [of n 5] by (simp add: fmt05_def)

lemma fmt05_mono: "m < n \<Longrightarrow> n < 100000 \<Longrightarrow> fmt05 m < fmt05 n"
  using padk_mono [of m n 5] by (simp add: fmt05_padk)

lemma fmt05_length: "n < 100000 \<Longrightarrow> length (fmt05 n) = 5"
  by (simp add: fmt05_padk length_padk)

section \<open>Names, rows and the latest file number\<close>

lemma url_of_inj: "url_of a = url_of b \<Longrightarrow> a = b"
  by (simp add: url_of_def filename_of_def)

lemma wf_nr_fmt05: "wf_nr (fmt05 n)"
  by (simp add: wf_nr_def py_int_fmt05)

lemma wf_nr_D: "wf_nr nr \<Longrightarrow> \<exists>n. nr = fmt05 n \<and> py_int nr = Some n"
  by (auto simp: wf_nr_def split: option.splits)

lemma fmt05_0: "fmt05 0 = ''00000''"
  by code_simp

subsection \<open>The store\<close>

lemma executemany_distinct:
  "distinct (map fst rows) \<Longrightarrow> distinct (map fst (snd (executemany hs rows)))"
  by (induction hs rows rule: executemany.induct) auto

lemma executemany_subset:
  "set (snd (executemany hs rows)) \<subseteq> set rows \<union> set hs"
  by (induction hs rows rule: executemany.induct) auto

lemma executemany_prefix: "prefix rows (snd (executemany hs rows))"
proof (induction hs rows rule: executemany.induct)
  case (1 rows)
  then show ?case by simp
next
  case (2 r rest rows)
  then show ?case by (auto dest: append_prefixD)
qed

lemma executemany_ok:
  "distinct (map fst hs) \<Longrightarrow> fst ` set hs \<inter> fst ` set rows = {} \<Longrightarrow>
   executemany hs rows = (None, rows @ hs)"
  by (induction hs rows rule: executemany.induct) auto

lemma executemany_fail:
  "\<not> (distinct (map fst hs) \<and> fst ` set hs \<inter> fst ` set rows = {}) \<Longrightarrow>
   fst (executemany hs rows) = Some IntegrityError"
  by (induction hs rows rule: executemany.induct) auto

lemma insert_hashes_unique: "unique_hashes c \<Longrightarrow> unique_hashes (insert_hashes hs c)"
  using executemany_distinct [of "visible c" hs]
  by (auto simp: unique_hashes_def insert_hashes_def commit_def split: prod.splits option.splits)

lemma insert_hashes_wf:
  assumes "wf_store c" "\<forall>r\<in>set hs. wf_nr (snd r)"
  shows "wf_store (insert_hashes hs c)"
proof -
  have "\<forall>r\<in>set (snd (executemany hs (visible c))). wf_nr (snd r)"
    using executemany_subset [of hs "visible c"] assms by (auto simp: wf_store_def list_all_iff)
  with assms(1) show ?thesis
    by (auto simp: wf_store_def insert_hashes_def commit_def list_all_iff split: prod.splits option.splits)
qed

lemma collect_hashes_nr: "r \<in> set (collect_hashes ls nr) \<Longrightarrow> snd r = nr"
  by (induction ls) (auto simp: Let_def split: if_splits)

lemma select_latest_Nil: "select_latest [] = []"
  by (simp add: select_latest_def)

lemma sorted_le_last: "sorted xs \<Longrightarrow> y \<in> set xs \<Longrightarrow> y \<le> last (xs::'a::linorder list)"
  by (induction xs) auto

lemma sorted_last_Max: "xs \<noteq> [] \<Longrightarrow> sorted xs \<Longrightarrow> last xs = Max (set (xs::'a::linorder list))"
proof -
  assume a: "xs \<noteq> []" "sorted xs"
  have "Max (set xs) = last xs"
  proof (rule Max_eqI)
    show "finite (set xs)" by simp
    show "last xs \<in> set xs" using a by simp
    fix y assume "y \<in> set xs"
    then show "y \<le> last xs" using a by (simp add: sorted_le_last)
  qed
  then show ?thesis by simp
qed

lemma select_latest_Max: "rows \<noteq> [] \<Longrightarrow> select_latest rows = [Max (snd ` set rows)]"
proof -
  assume a: "rows \<noteq> []"
  let ?ys = "sort (map snd rows)"
  have ne: "?ys \<noteq> []" using a by (metis length_sort length_map length_0_conv)
  then have "take 1 (rev ?ys) = [last ?ys]"
    by (cases ?ys rule: rev_cases) simp_all
  moreover have "last ?ys = Max (set ?ys)" using ne by (intro sorted_last_Max) simp_all
  ultimately show ?thesis by (simp add: select_latest_def)
qed

lemma get_latest_empty: "visible c = [] \<Longrightarrow> get_latest_file_nr c = ''00000''"
  by (simp add: get_latest_file_nr_def select_latest_Nil)

lemma get_latest_Max: "visible c \<noteq> [] \<Longrightarrow> get_latest_file_nr c = Max (snd ` set (visible c))"
  by (simp add: get_latest_file_nr_def select_latest_Max)

lemma get_latest_wf: "wf_store c \<Longrightarrow> wf_nr (get_latest_file_nr c)"
proof (cases "visible c = []")
  case True
  then show ?thesis using wf_nr_fmt05 [of 0] by (simp add: get_latest_empty fmt05_0)
next
  case False
  assume wf: "wf_store c"
  have "Max (snd ` set (visible c)) \<in> snd ` set (visible c)"
    using False by (intro Max_in) simp_all
  then obtain r where r: "r \<in> set (visible c)" "Max (snd ` set (visible c)) = snd r"
    by blast
  from wf r(1) have "wf_nr (snd r)" by (simp add: wf_store_def list_all_iff)
  with r(2) False show ?thesis by (simp add: get_latest_Max)
qed

subsection \<open>The loop\<close>

lemma download_loop_stop:
  assumes "\<not> is_found (cat (url_of nr))"
  shows "download_loop cat nr w =
         Some (loop_outcome (cat (url_of nr)), w\<lparr>fetched := fetched w @ [url_of nr]\<rparr>)"
  using assms
  by (subst download_loop.simps)
     (simp add: urlopen_def is_found_def loop_outcome_def split: response.splits)

lemma download_loop_step:
  assumes "cat (url_of nr) = Found ls" "py_int nr = Some n"
  shows "download_loop cat nr w =
         download_loop cat (fmt05 (n + 1))
           (w\<lparr>fetched := fetched w @ [url_of nr],
              db := insert_hashes (collect_hashes ls nr) (db w),
              batches := batches w @ [collect_hashes ls nr]\<rparr>)"
  by (subst download_loop.simps) (simp add: urlopen_def Let_def assms)

lemma download_loop_run:
  assumes "\<forall>i. s \<le> i \<and> i < k \<longrightarrow> is_found (cat (url_of (fmt05 i)))"
    and "s \<le> k" and "\<not> is_found (cat (url_of (fmt05 k)))"
  shows "\<exists>w'. download_loop cat (fmt05 s) w = Some (loop_outcome (cat (url_of (fmt05 k))), w')
            \<and> fetched w' = fetched w @ map (\<lambda>i. url_of (fmt05 i)) [s..<Suc k]"
  using assms
proof (induction "k - s" arbitrary: s w)
  case 0
  then have "s = k" by simp
  with 0 show ?case by (simp add: download_loop_stop)
next
  case (Suc d)
  then have lt: "s < k" by simp
  with Suc.prems(1) have "is_found (cat (url_of (fmt05 s)))" by simp
  then obtain ls where ls: "cat (url_of (fmt05 s)) = Found ls"
    by (cases "cat (url_of (fmt05 s))") (simp_all add: is_found_def)
  let ?w = "w\<lparr>fetched := fetched w @ [url_of (fmt05 s)],
              db := insert_hashes (collect_hashes ls (fmt05 s)) (db w),
              batches := batches w @ [collect_hashes ls (fmt05 s)]\<rparr>"
  have step: "download_loop cat (fmt05 s) w = download_loop cat (fmt05 (s + 1)) ?w"
    using ls py_int_fmt05 [of s] by (rule download_loop_step)
  have d: "d = k - Suc s" using Suc.hyps(2) by simp
  have "\<exists>w'. download_loop cat (fmt05 (Suc s)) ?w = Some (loop_outcome (cat (url_of (fmt05 k))), w')
            \<and> fetched w' = fetched ?w @ map (\<lambda>i. url_of (fmt05 i)) [Suc s..<Suc k]"
    using Suc.prems lt by (intro Suc.hyps(1) [OF d]) auto
  then obtain w' where w': "download_loop cat (fmt05 (Suc s)) ?w = Some (loop_outcome (cat (url_of (fmt05 k))), w')"
     "fetched w' = fetched ?w @ map (\<lambda>i. url_of (fmt05 i)) [Suc s..<Suc k]" by blast
  have "[s..<Suc k] = s # [Suc s..<Suc k]" using lt by (simp add: upt_conv_Cons)
  with w' step show ?case by simp
qed

lemma download_loop_inv:
  assumes "download_loop cat nr w = Some y"
  shows "unique_hashes (db w) \<longrightarrow> wf_store (db w) \<longrightarrow> wf_nr nr \<longrightarrow>
         unique_hashes (db (snd y)) \<and> wf_store (db (snd y))"
proof (rule download_loop.raw_induct
    [where P = "\<lambda>cat nr w y. unique_hashes (db w) \<longrightarrow> wf_store (db w) \<longrightarrow> wf_nr nr \<longrightarrow>
         unique_hashes (db (snd y)) \<and> wf_store (db (snd y))", OF _ assms], goal_cases)
  case (1 dl cat nr w y)
  show ?case
  proof (intro impI)
    assume u: "unique_hashes (db w)" and wf: "wf_store (db w)" and nr: "wf_nr nr"
    show "unique_hashes (db (snd y)) \<and> wf_store (db (snd y))"
    proof (cases "cat (url_of nr)")
      case (Found ls)
      from nr obtain n where n: "py_int nr = Some n" by (auto dest: wf_nr_D)
      let ?w = "w\<lparr>fetched := fetched w @ [url_of nr],
              db := insert_hashes (collect_hashes ls nr) (db w),
              batches := batches w @ [collect_hashes ls nr]\<rparr>"
      from 1(2) Found n have "dl cat (fmt05 (n + 1)) ?w = Some y"
        by (simp add: urlopen_def Let_def)
      from 1(1) [OF this] show ?thesis
        using u wf nr by (simp add: insert_hashes_unique insert_hashes_wf collect_hashes_nr wf_nr_fmt05)
    next
      case (HTTPErr code)
      with 1(2) u wf show ?thesis by (auto simp: urlopen_def)
    next
      case URLErr
      with 1(2) u wf show ?thesis by (auto simp: urlopen_def)
    qed
  qed
qed

lemma download_loop_exn:
  assumes "download_loop cat nr w = Some y"
  shows "fst y \<noteq> Inl IntegrityError"
proof (rule download_loop.raw_induct
    [where P = "\<lambda>cat nr w y. fst y \<noteq> Inl IntegrityError", OF _ assms], goal_cases)
  case (1 dl cat nr w y)
  then show ?case
    by (auto simp: urlopen_def Let_def split: response.splits option.splits)
qed

subsection \<open>The freshness probe and the run\<close>

lemma py_int_None: "py_int ''None'' = None"
  by code_simp

lemma db_is_updated_db: "db (snd (db_is_updated cat w)) = db w"
  by (auto simp: db_is_updated_def check_latest_file_def urlopen_def Let_def
           split: option.splits response.splits)

lemma db_is_updated_batches: "batches (snd (db_is_updated cat w)) = batches w"
  by (auto simp: db_is_updated_def check_latest_file_def urlopen_def Let_def
           split: option.splits response.splits)

lemma db_is_updated_probe:
  assumes "py_int (get_latest_file_nr (db w)) = Some c"
  shows "db_is_updated cat w =
          ((case cat (url_of (fmt05 (c + 1))) of
              Found ls \<Rightarrow> Inr (Some False)
            | HTTPErr code \<Rightarrow> if code = 404 then Inr (Some True) else Inr None
            | URLErr \<Rightarrow> Inr (Some True)),
           w\<lparr>fetched := fetched w @ [url_of (fmt05 (c + 1))]\<rparr>)"
proof -
  from assms have "get_latest_file_nr (db w) \<noteq> ''None''" using py_int_None by auto
  with assms show ?thesis
    by (simp add: db_is_updated_def check_latest_file_def urlopen_def split: response.splits)
qed

lemma download_files_uptodate:
  assumes "py_int (get_latest_file_nr (db w)) = Some c"
    and "cat (url_of (fmt05 (c + 1))) = HTTPErr 404 \<or> cat (url_of (fmt05 (c + 1))) = URLErr"
  shows "download_files cat w = Some (Inr (), w\<lparr>fetched := fetched w @ [url_of (fmt05 (c + 1))]\<rparr>)"
  using assms(2) by (auto simp: download_files_def db_is_updated_probe [OF assms(1)])

lemma download_files_loop:
  assumes "py_int (get_latest_file_nr (db w)) = Some c"
    and "cat (url_of (fmt05 (c + 1))) = Found ls \<or> (cat (url_of (fmt05 (c + 1))) = HTTPErr code \<and> code \<noteq> 404)"
  shows "download_files cat w =
         download_loop cat (get_latest_file_nr (db w)) (w\<lparr>fetched := fetched w @ [url_of (fmt05 (c + 1))]\<rparr>)"
  using assms(2) by (auto simp: download_files_def db_is_updated_probe [OF assms(1)])

lemma download_files_inv:
  assumes "download_files cat w = Some y" "unique_hashes (db w)" "wf_store (db w)"
  shows "unique_hashes (db (snd y)) \<and> wf_store (db (snd y))"
proof (cases "db_is_updated cat w")
  case (Pair res w1)
  then have w1: "db w1 = db w" using db_is_updated_db [of cat w] by simp
  show ?thesis
  proof (cases "\<exists>r. res = Inr r \<and> \<not> truthy r")
    case True
    with Pair assms(1) have "download_loop cat (get_latest_file_nr (db w1)) w1 = Some y"
      by (auto simp: download_files_def)
    from download_loop_inv [OF this] assms(2,3) w1 show ?thesis
      by (simp add: get_latest_wf)
  next
    case False
    with Pair assms(1) have "snd y = w1"
      by (cases res) (auto simp: download_files_def split: if_splits)
    with w1 assms show ?thesis by simp
  qed
qed

lemma download_files_exn:
  assumes "download_files cat w = Some y"
  shows "fst y \<noteq> Inl IntegrityError"
proof (cases "db_is_updated cat w")
  case (Pair res w1)
  have res: "res \<noteq> Inl IntegrityError"
    using Pair
    by (auto simp: db_is_updated_def check_latest_file_def urlopen_def Let_def
           split: option.splits response.splits if_splits)
  show ?thesis
  proof (cases "\<exists>r. res = Inr r \<and> \<not> truthy r")
    case True
    with Pair assms(1) have "download_loop cat (get_latest_file_nr (db w1)) w1 = Some y"
      by (auto simp: download_files_def)
    then show ?thesis by (rule download_loop_exn)
  next
    case False
    with Pair assms(1) res show ?thesis
      by (cases res) (auto simp: download_files_def split: if_splits)
  qed
qed

lemma init_table_inv: "unique_hashes init_table \<and> wf_store init_table"
  by (simp add: unique_hashes_def wf_store_def init_table_def)

lemma reachable_inv: "reachable c \<Longrightarrow> unique_hashes c \<and> wf_store c"
proof (induction rule: reachable.induct)
  case reach_init
  then show ?case by (rule init_table_inv)
next
  case (reach_run c cat r w')
  from download_files_inv [OF reach_run(2)] reach_run(3) show ?case
    by (simp add: start_world_def)
next
  case (reach_restart c)
  then show ?case by (simp add: unique_hashes_def wf_store_def restart_def)
qed

subsection \<open>Cleaning a line\<close>

lemma py_replace_Nil: "old \<noteq> [] \<Longrightarrow> py_replace old new [] = []"
  by (subst py_replace.simps) simp

lemma py_replace_skip:
  "old \<noteq> [] \<Longrightarrow> \<not> prefix old (c # cs) \<Longrightarrow> py_replace old new (c # cs) = c # py_replace old new cs"
  by (subst py_replace.simps) simp

lemma py_replace_hit:
  "old \<noteq> [] \<Longrightarrow> py_replace old new (old @ s) = new @ py_replace old new s"
  by (subst py_replace.simps) simp

lemma plain_escape: "plain_char c \<Longrightarrow> bytes_escape squote c = [c]"
  by (auto simp: plain_char_def bytes_escape_def tab_def newline_def creturn_def)

lemma plain_concat: "list_all plain_char s \<Longrightarrow> concat (map (bytes_escape squote) s) = s"
  by (induction s) (simp_all add: plain_escape)

lemma plain_no_squote: "list_all plain_char s \<Longrightarrow> squote \<notin> set s"
  by (auto simp: list_all_iff plain_char_def)

lemma str_bytes_plain:
  assumes "list_all plain_char s"
  shows "str_bytes (s @ [newline]) = [CHR ''b'', squote] @ s @ [backslash, CHR ''n'', squote]"
proof -
  have q: "bytes_quote (s @ [newline]) = squote"
    using plain_no_squote [OF assms] by (simp add: bytes_quote_def newline_def squote_def)
  have "bytes_escape squote newline = [backslash, CHR ''n'']"
    by (simp add: bytes_escape_def newline_def squote_def backslash_def tab_def)
  then show ?thesis by (simp add: str_bytes_def q plain_concat [OF assms])
qed

lemma replace_b_quote:
  "list_all plain_char s \<Longrightarrow>
   py_replace [CHR ''b'', squote] [] (s @ [backslash, CHR ''n'', squote]) = s @ [backslash, CHR ''n'', squote]"
proof (induction s)
  case Nil
  show ?case
    by (simp add: py_replace_skip py_replace_Nil backslash_def squote_def)
next
  case (Cons c s)
  then have "c \<noteq> squote" "squote \<notin> set s" by (auto simp: plain_char_def list_all_iff)
  then have "\<not> prefix [CHR ''b'', squote] (c # s @ [backslash, CHR ''n'', squote])"
    by (cases s) (auto simp: backslash_def squote_def)
  with Cons show ?case by (simp add: py_replace_skip)
qed

lemma replace_newline_quote:
  "list_all plain_char s \<Longrightarrow> py_replace [backslash, CHR ''n'', squote] [] (s @ [backslash, CHR ''n'', squote]) = s"
proof (induction s)
  case Nil
  show ?case using py_replace_hit [of "[backslash, CHR ''n'', squote]" "[]" "[]"]
    by (simp add: py_replace_Nil)
next
  case (Cons c s)
  then have "c \<noteq> backslash" by (simp add: plain_char_def)
  then have "\<not> prefix [backslash, CHR ''n'', squote] (c # s @ [backslash, CHR ''n'', squote])"
    by simp
  with Cons show ?case by (simp add: py_replace_skip)
qed

lemma clean_line_plain: "list_all plain_char s \<Longrightarrow> clean_line (s @ [newline]) = s"
  using py_replace_hit [of "[CHR ''b'', squote]" "[]" "s @ [backslash, CHR ''n'', squote]"]
  by (simp add: clean_line_def str_bytes_plain replace_b_quote replace_newline_quote)

lemma collect_hashes_plain:
  "list_all (list_all plain_char) texts \<Longrightarrow>
   collect_hashes (map (\<lambda>s. s @ [newline]) texts) nr =
   map (\<lambda>s. (s, nr)) (filter (\<lambda>s. \<not> startswith s ''#'') texts)"
  by (induction texts) (simp_all add: clean_line_plain)

subsection \<open>Runs of the examples\<close>

lemma fmt05_1: "fmt05 (Suc 0) = ''00001''" by code_simp
lemma fmt05_2: "fmt05 2 = ''00002''" by code_simp
lemma fmt05_3: "fmt05 3 = ''00003''" by code_simp

lemma fmt05_eq_0: "(fmt05 n = ''00000'') = (n = 0)"
  using fmt05_inj [of n 0] by (auto simp: fmt05_0)

lemma fmt05_eq_1: "(fmt05 n = ''00001'') = (n = Suc 0)"
  using fmt05_inj [of n "Suc 0"] by (auto simp: fmt05_1)

lemma fmt05_eq_2: "(fmt05 n = ''00002'') = (n = 2)"
  using fmt05_inj [of n 2] by (auto simp: fmt05_2)

lemma url_of_eq: "(url_of a = url_of b) = (a = b)"
  by (auto dest: url_of_inj)

lemma two_shards_found: "is_found (two_shards ls0 ls1 (url_of (fmt05 i))) = (i < 2)"
  by (auto simp: two_shards_def is_found_def url_of_eq fmt05_eq_0 fmt05_eq_1)

lemma two_shards_beyond: "1 < n \<Longrightarrow> two_shards ls0 ls1 (url_of (fmt05 n)) = HTTPErr 404"
  by (simp add: two_shards_def url_of_eq fmt05_eq_0 fmt05_eq_1)

lemma ex_cat2_found: "is_found (ex_cat2 (url_of (fmt05 i))) = (i < 3)"
  by (auto simp: ex_cat2_def ex_cat_def two_shards_def is_found_def url_of_eq fmt05_eq_0 fmt05_eq_1 fmt05_eq_2)

lemma ex_run1: "download_files ex_cat (start_world init_table) = Some (Inr (), ex_w1)"
  by code_simp

lemma ex_run_err:
  "download_files ex_cat_err (start_world init_table) =
   Some (Inr (), \<lparr>db = ex_db0,
                   fetched = [url_of ''00001'', url_of ''00000'', url_of ''00001''],
                   batches = [[(''h1'', ''00000''), (''h2'', ''00000'')]]\<rparr>)"
  by code_simp

lemma reachable_ex_db1: "reachable ex_db1"
  using reach_run [OF reach_init ex_run1] by (simp add: ex_w1_def)

lemma reachable_ex_db0: "reachable ex_db0"
  using reach_run [OF reach_init ex_run_err] by simp

lemma two_shards_run:
  "\<exists>w'. download_files (two_shards ls0 ls1) (start_world init_table) = Some (Inr (), w')
        \<and> unique_hashes (db w')"
proof -
  let ?cat = "two_shards ls0 ls1" and ?w = "start_world init_table"
  have c: "py_int (get_latest_file_nr (db ?w)) = Some 0"
    using py_int_fmt05 [of 0] by (simp add: start_world_def init_table_def get_latest_empty fmt05_0)
  have l: "get_latest_file_nr (db ?w) = fmt05 0"
    by (simp add: start_world_def init_table_def get_latest_empty fmt05_0)
  have "?cat (url_of (fmt05 (0 + 1))) = Found ls1"
    by (simp add: two_shards_def url_of_eq fmt05_1)
  then have "download_files ?cat ?w =
     download_loop ?cat (fmt05 0) (?w\<lparr>fetched := fetched ?w @ [url_of (fmt05 (0 + 1))]\<rparr>)"
    using download_files_loop [OF c, of ?cat ls1] l by simp
  moreover have "\<exists>w'. download_loop ?cat (fmt05 0) (?w\<lparr>fetched := fetched ?w @ [url_of (fmt05 (0 + 1))]\<rparr>)
      = Some (loop_outcome (?cat (url_of (fmt05 2))), w')
      \<and> fetched w' = fetched (?w\<lparr>fetched := fetched ?w @ [url_of (fmt05 (0 + 1))]\<rparr>)
           @ map (\<lambda>i. url_of (fmt05 i)) [0..<Suc 2]"
    by (rule download_loop_run) (simp_all add: two_shards_found)
  ultimately obtain w' where w': "download_files ?cat ?w = Some (loop_outcome (?cat (url_of (fmt05 2))), w')"
    by auto
  have "loop_outcome (?cat (url_of (fmt05 2))) = Inr ()"
    by (simp add: two_shards_beyond loop_outcome_def)
  with w' have r: "download_files ?cat ?w = Some (Inr (), w')" by simp
  from download_files_inv [OF r] init_table_inv have "unique_hashes (db w')"
    by (simp add: start_world_def)
  with r show ?thesis by blast
qed

lemma first_stop:
  assumes "s \<le> m" "\<not> is_found (cat (url_of (fmt05 m)))"
  shows "\<exists>k. s \<le> k \<and> k \<le> m \<and> \<not> is_found (cat (url_of (fmt05 k)))
           \<and> (\<forall>i. s \<le> i \<and> i < k \<longrightarrow> is_found (cat (url_of (fmt05 i))))"
proof -
  let ?P = "\<lambda>k. s \<le> k \<and> \<not> is_found (cat (url_of (fmt05 k)))"
  have P: "?P m" using assms by simp
  have "?P (LEAST k. ?P k)" using P by (rule LeastI)
  moreover have "(LEAST k. ?P k) \<le> m" using P by (rule Least_le)
  moreover have "\<forall>i. s \<le> i \<and> i < (LEAST k. ?P k) \<longrightarrow> is_found (cat (url_of (fmt05 i)))"
    using not_less_Least [of _ ?P] by blast
  ultimately show ?thesis by blast
qed

lemma fmt05_eq: "(fmt05 a = fmt05 b) = (a = b)"
  by (auto dest: fmt05_inj)

lemma urls_upto: "url_of (fmt05 j) \<in> set (map (\<lambda>i. url_of (fmt05 i)) [s..<Suc k]) \<longleftrightarrow> s \<le> j \<and> j \<le> k"
  by (auto simp: url_of_eq fmt05_eq)

lemma shard_index_fmt05: "snd r = fmt05 n \<Longrightarrow> shard_index r = n"
  by (simp add: shard_index_def py_int_fmt05)

lemma get_latest_numeric:
  assumes ne: "visible c \<noteq> []"
    and five: "\<forall>r\<in>set (visible c). \<exists>n<100000. snd r = fmt05 n"
  shows "get_latest_file_nr c = fmt05 (Max (shard_index ` set (visible c)))"
proof -
  let ?S = "set (visible c)"
  have "Max (snd ` ?S) \<in> snd ` ?S" using ne by (intro Max_in) simp_all
  then obtain r where r: "r \<in> ?S" "Max (snd ` ?S) = snd r" by blast
  from five r(1) obtain m where m: "m < 100000" "snd r = fmt05 m" by blast
  have "Max (shard_index ` ?S) = m"
  proof (rule Max_eqI)
    show "finite (shard_index ` ?S)" by simp
    show "m \<in> shard_index ` ?S" using r(1) m(2) shard_index_fmt05 [of r m] by force
    fix y assume "y \<in> shard_index ` ?S"
    then obtain q where q: "q \<in> ?S" "y = shard_index q" by blast
    from five q(1) obtain n where n: "n < 100000" "snd q = fmt05 n" by blast
    have "snd q \<le> Max (snd ` ?S)" using q(1) by (intro Max_ge) simp_all
    then have le: "fmt05 n \<le> fmt05 m" using n(2) r(2) m(2) by simp
    have "n \<le> m"
    proof (rule ccontr)
      assume "\<not> n \<le> m"
      then have "fmt05 m < fmt05 n" using n(1) by (intro fmt05_mono) simp_all
      with le show False by simp
    qed
    then show "y \<le> m" using q(2) n(2) by (simp add: shard_index_fmt05)
  qed
  then show ?thesis using ne r(2) m(2) by (simp add: get_latest_Max)
qed

lemma insert_hashes_ok:
  assumes "distinct (map fst hs)" "fst ` set hs \<inter> fst ` set (visible c) = {}"
  shows "insert_hashes hs c = \<lparr>committed = visible c @ hs, visible = visible c @ hs\<rparr>"
  by (simp add: insert_hashes_def executemany_ok [OF assms] commit_def)

lemma insert_hashes_fail:
  assumes "\<not> (distinct (map fst hs) \<and> fst ` set hs \<inter> fst ` set (visible c) = {})"
  shows "committed (insert_hashes hs c) = committed c"
  using executemany_fail [OF assms]
  by (cases "executemany hs (visible c)") (auto simp: insert_hashes_def)

section \<open>The claims\<close>

text \<open>
  C7. Exhaustion: a loop started at index \<open>s\<close>, against a catalog that answers 404 at
  some index \<open>m\<close> from \<open>s\<close> on, returns; the requests it issued are those for the
  consecutive indices from \<open>s\<close> to some \<open>k\<close> not beyond \<open>m\<close>, and no request is issued
  for an index after \<open>m\<close>.
\<close>

theorem C7_exhaustion_stops_loop:
  assumes "s \<le> m" and "cat (url_of (fmt05 m)) = HTTPErr 404"
  shows "\<exists>r w' k. download_loop cat (fmt05 s) w = Some (r, w')
           \<and> k \<le> m \<and> fetched w' = fetched w @ map (\<lambda>i. url_of (fmt05 i)) [s..<Suc k]
           \<and> (\<forall>j>m. url_of (fmt05 j) \<notin> set (map (\<lambda>i. url_of (fmt05 i)) [s..<Suc k]))"
proof -
  from assms have "\<not> is_found (cat (url_of (fmt05 m)))" by (simp add: is_found_def)
  from first_stop [where cat = cat, OF assms(1) this] obtain k where k: "s \<le> k" "k \<le> m"
    "\<not> is_found (cat (url_of (fmt05 k)))"
    "\<forall>i. s \<le> i \<and> i < k \<longrightarrow> is_found (cat (url_of (fmt05 i)))" by blast
  from download_loop_run [where cat = cat and w = w, OF k(4) k(1) k(3)] obtain w' where
    "download_loop cat (fmt05 s) w = Some (loop_outcome (cat (url_of (fmt05 k))), w')"
    "fetched w' = fetched w @ map (\<lambda>i. url_of (fmt05 i)) [s..<Suc k]" by blast
  moreover have "\<forall>j>m. url_of (fmt05 j) \<notin> set (map (\<lambda>i. url_of (fmt05 i)) [s..<Suc k])"
    using k(2) by (simp only: urls_upto) auto
  ultimately show ?thesis using k(2) by blast
qed

theorem C7_exhaustion_stops_loop_witness:
  "\<exists>r w' k. download_loop ex_cat (fmt05 0) (start_world init_table) = Some (r, w')
     \<and> k \<le> 2
     \<and> fetched w' = fetched (start_world init_table) @ map (\<lambda>i. url_of (fmt05 i)) [0..<Suc k]
     \<and> url_of (fmt05 3) \<notin> set (map (\<lambda>i. url_of (fmt05 i)) [0..<Suc k])"
proof -
  have h: "ex_cat (url_of (fmt05 2)) = HTTPErr 404"
    by (simp add: ex_cat_def two_shards_beyond)
  from C7_exhaustion_stops_loop [where s = 0 and m = 2 and cat = ex_cat
      and w = "start_world init_table", OF _ h]
  obtain r w' k where a: "download_loop ex_cat (fmt05 0) (start_world init_table) = Some (r, w')"
    "k \<le> 2"
    "fetched w' = fetched (start_world init_table) @ map (\<lambda>i. url_of (fmt05 i)) [0..<Suc k]"
    "\<forall>j>2. url_of (fmt05 j) \<notin> set (map (\<lambda>i. url_of (fmt05 i)) [0..<Suc k])"
    by auto
  from a(4) have "url_of (fmt05 3) \<notin> set (map (\<lambda>i. url_of (fmt05 i)) [0..<Suc k])" by simp
  with a(1,2,3) show ?thesis by blast
qed

text \<open>
  C1, as the code has it. The cursor is the value of \<^verbatim>\<open>get_latest_file_nr\<close>. When the
  probe of \<open>c + 1\<close> finds a file, the loop requests the cursor \<open>c\<close> itself first, then
  \<open>c + 1\<close>, \<open>c + 2\<close> and so on up to the first index \<open>k\<close> that is not found, and the run
  returns; no index below the cursor is requested.
\<close>

theorem C1_loop_starts_at_cursor:
  assumes "get_latest_file_nr (db w) = fmt05 c"
    and "is_found (cat (url_of (fmt05 (c + 1))))"
    and "c \<le> k" and "\<forall>i. c \<le> i \<and> i < k \<longrightarrow> is_found (cat (url_of (fmt05 i)))"
    and "\<not> is_found (cat (url_of (fmt05 k)))"
  shows "\<exists>w'. download_files cat w = Some (loop_outcome (cat (url_of (fmt05 k))), w')
           \<and> fetched w' = fetched w @ url_of (fmt05 (c + 1)) # map (\<lambda>i. url_of (fmt05 i)) [c..<Suc k]
           \<and> (\<forall>j<c. url_of (fmt05 j) \<notin> set (map (\<lambda>i. url_of (fmt05 i)) [c..<Suc k]))"
proof -
  let ?w = "w\<lparr>fetched := fetched w @ [url_of (fmt05 (c + 1))]\<rparr>"
  have c: "py_int (get_latest_file_nr (db w)) = Some c" by (simp add: assms(1) py_int_fmt05)
  from assms(2) obtain ls where "cat (url_of (fmt05 (c + 1))) = Found ls"
    by (cases "cat (url_of (fmt05 (c + 1)))") (simp_all add: is_found_def)
  then have "download_files cat w = download_loop cat (fmt05 c) ?w"
    using download_files_loop [where cat = cat and ls = ls, OF c] assms(1) by simp
  moreover from download_loop_run [where cat = cat and w = ?w, OF assms(4) assms(3) assms(5)] obtain w' where
    "download_loop cat (fmt05 c) ?w = Some (loop_outcome (cat (url_of (fmt05 k))), w')"
    "fetched w' = fetched ?w @ map (\<lambda>i. url_of (fmt05 i)) [c..<Suc k]" by blast
  moreover have "\<forall>j<c. url_of (fmt05 j) \<notin> set (map (\<lambda>i. url_of (fmt05 i)) [c..<Suc k])"
    by (simp only: urls_upto) auto
  ultimately show ?thesis by simp
qed

theorem C1_loop_starts_at_cursor_witness:
  "\<exists>w'. download_files ex_cat2 (start_world ex_db1) = Some (loop_outcome (ex_cat2 (url_of (fmt05 3))), w')
     \<and> fetched w' = fetched (start_world ex_db1) @ url_of (fmt05 (1 + 1)) # map (\<lambda>i. url_of (fmt05 i)) [1..<Suc 3]
     \<and> url_of (fmt05 0) \<notin> set (map (\<lambda>i. url_of (fmt05 i)) [1..<Suc 3])"
proof -
  have h1: "get_latest_file_nr (db (start_world ex_db1)) = fmt05 1" by code_simp
  have h2: "is_found (ex_cat2 (url_of (fmt05 (1 + 1))))" by (simp add: ex_cat2_found)
  have h3: "(1::nat) \<le> 3" by simp
  have h4: "\<forall>i. 1 \<le> i \<and> i < 3 \<longrightarrow> is_found (ex_cat2 (url_of (fmt05 i)))" by (simp add: ex_cat2_found)
  have h5: "\<not> is_found (ex_cat2 (url_of (fmt05 3)))" by (simp add: ex_cat2_found)
  from C1_loop_starts_at_cursor [where cat = ex_cat2, OF h1 h2 h3 h4 h5]
  obtain w' where a: "download_files ex_cat2 (start_world ex_db1) = Some (loop_outcome (ex_cat2 (url_of (fmt05 3))), w')"
    "fetched w' = fetched (start_world ex_db1) @ url_of (fmt05 (1 + 1)) # map (\<lambda>i. url_of (fmt05 i)) [1..<Suc 3]"
    "\<forall>j<1. url_of (fmt05 j) \<notin> set (map (\<lambda>i. url_of (fmt05 i)) [1..<Suc 3])"
    by blast
  from a(3) have "url_of (fmt05 0) \<notin> set (map (\<lambda>i. url_of (fmt05 i)) [1..<Suc 3])" by simp
  with a(1,2) show ?thesis by blast
qed

text \<open>
  C1, as the claim states it, fails. The store \<open>ex_db1\<close> has the cursor 00001 and the
  catalog publishes 00002, so the probe finds a file; the first request of the loop
  is for 00001, the cursor, which is fetched again.
\<close>

theorem C1_first_fetch_counterexample:
  "get_latest_file_nr ex_db1 = ''00001''
   \<and> is_found (ex_cat2 (url_of ''00002''))
   \<and> download_files ex_cat2 (start_world ex_db1) =
       Some (Inr (), \<lparr>db = \<lparr>committed = [(''h1'', ''00000''), (''h2'', ''00000''), (''h3'', ''00001''), (''h5'', ''00002'')],
                            visible = [(''h1'', ''00000''), (''h2'', ''00000''), (''h3'', ''00001''), (''h5'', ''00002'')]\<rparr>,
                       fetched = [url_of ''00002'', url_of ''00001'', url_of ''00002'', url_of ''00003''],
                       batches = [[(''h3'', ''00001''), (''h1'', ''00001''), (''h4'', ''00001'')],
                                  [(''h5'', ''00002'')]]\<rparr>)
   \<and> url_of ''00001'' \<noteq> url_of ''00002''"
  by code_simp

text \<open>
  C5. Idempotence: after a run that returned, against a catalog that answers 404 for
  every index beyond the cursor of the store the run left, a second run returns too,
  passes no batch to \<^verbatim>\<open>insert_hashes\<close> and leaves the connection as it was.
\<close>

theorem C5_second_run_no_inserts:
  assumes "download_files cat w0 = Some (Inr (), w1)"
    and "py_int (get_latest_file_nr (db w1)) = Some c"
    and "\<forall>n>c. cat (url_of (fmt05 n)) = HTTPErr 404"
  shows "\<exists>w2. download_files cat w1 = Some (Inr (), w2) \<and> db w2 = db w1 \<and> batches w2 = batches w1"
proof -
  from assms(3) have "cat (url_of (fmt05 (c + 1))) = HTTPErr 404" by simp
  then show ?thesis using download_files_uptodate [where cat = cat, OF assms(2)] by simp
qed

theorem C5_second_run_no_inserts_witness:
  "\<exists>w2. download_files ex_cat ex_w1 = Some (Inr (), w2) \<and> db w2 = db ex_w1 \<and> batches w2 = batches ex_w1"
proof -
  have h2: "py_int (get_latest_file_nr (db ex_w1)) = Some 1" by code_simp
  have h3: "\<forall>n>1. ex_cat (url_of (fmt05 n)) = HTTPErr 404"
    by (simp add: ex_cat_def two_shards_beyond)
  show ?thesis by (rule C5_second_run_no_inserts [where cat = ex_cat, OF ex_run1 h2 h3])
qed

text \<open>
  C6. \<^verbatim>\<open>get_latest_file_nr\<close> returns the string 00000 when the connection sees no row,
  and otherwise the greatest \<^verbatim>\<open>file_nr\<close> in the order of strings; where every row has
  a five-digit shard index, that is the format of the greatest index. The lookup and
  the probe built on it leave the connection as it was.
\<close>

theorem C6_latest_file_nr:
  "get_latest_file_nr c = (if visible c = [] then ''00000'' else Max (snd ` set (visible c)))
   \<and> (visible c \<noteq> [] \<and> (\<forall>r\<in>set (visible c). \<exists>n<100000. snd r = fmt05 n)
        \<longrightarrow> get_latest_file_nr c = fmt05 (Max (shard_index ` set (visible c))))
   \<and> db (snd (db_is_updated cat w)) = db w"
  using get_latest_numeric [of c]
  by (simp add: get_latest_empty get_latest_Max db_is_updated_db)

theorem C6_latest_file_nr_witness:
  "visible ex_db1 \<noteq> []
   \<and> get_latest_file_nr ex_db1 = fmt05 (Max (shard_index ` set (visible ex_db1)))
   \<and> get_latest_file_nr ex_db1 = ''00001''
   \<and> get_latest_file_nr init_table = ''00000''"
proof -
  have ne: "visible ex_db1 \<noteq> []" by (simp add: ex_db1_def)
  have "\<exists>n<100000. ''00000'' = fmt05 n" using fmt05_0 by (intro exI [of _ 0]) simp
  moreover have "\<exists>n<100000. ''00001'' = fmt05 n" using fmt05_1 by (intro exI [of _ "Suc 0"]) simp
  ultimately have five: "\<forall>r\<in>set (visible ex_db1). \<exists>n<100000. snd r = fmt05 n"
    by (simp add: ex_db1_def)
  have l: "get_latest_file_nr ex_db1 = ''00001''" by code_simp
  have e: "get_latest_file_nr init_table = ''00000''" by code_simp
  from C6_latest_file_nr [of ex_db1] ne five
  have "get_latest_file_nr ex_db1 = fmt05 (Max (shard_index ` set (visible ex_db1)))" by blast
  with ne l e show ?thesis by blast
qed

text \<open>
  C10. On the new table \<^verbatim>\<open>get_latest_file_nr\<close> returns 00000, the format of the index
  0. The probe on it requests the file 00001, not 00000. Any store whose greatest
  \<^verbatim>\<open>file_nr\<close> is 00000 gives the same answer as the empty one. The answer is never the
  string None: not on the new table, and not on any store the program reaches.
\<close>

theorem C10_empty_store_sentinel:
  "get_latest_file_nr init_table = ''00000'' \<and> fmt05 0 = ''00000''
   \<and> fetched (snd (db_is_updated cat (start_world init_table))) = [url_of ''00001'']
   \<and> url_of ''00001'' \<noteq> url_of ''00000''
   \<and> (visible c \<noteq> [] \<and> Max (snd ` set (visible c)) = ''00000''
        \<longrightarrow> get_latest_file_nr c = get_latest_file_nr init_table)
   \<and> get_latest_file_nr init_table \<noteq> ''None''
   \<and> (reachable c \<longrightarrow> get_latest_file_nr c \<noteq> ''None'')"
proof -
  have e: "get_latest_file_nr init_table = ''00000''"
    by (simp add: get_latest_empty init_table_def)
  have p: "py_int (get_latest_file_nr (db (start_world init_table))) = Some 0"
    using py_int_fmt05 [of 0] by (simp add: start_world_def e fmt05_0)
  have f: "fetched (snd (db_is_updated cat (start_world init_table))) = [url_of ''00001'']"
    by (subst db_is_updated_probe [OF p]) (simp add: fmt05_1 start_world_def)
  have r: "reachable c \<longrightarrow> get_latest_file_nr c \<noteq> ''None''"
  proof
    assume "reachable c"
    then have "wf_nr (get_latest_file_nr c)" by (simp add: reachable_inv get_latest_wf)
    then show "get_latest_file_nr c \<noteq> ''None''" using fmt05_not_None by (auto dest: wf_nr_D)
  qed
  show ?thesis using e f r by (simp add: fmt05_0 url_of_eq get_latest_Max)
qed

theorem C10_empty_store_sentinel_witness:
  "visible ex_db0 \<noteq> [] \<and> Max (snd ` set (visible ex_db0)) = ''00000'' \<and> reachable ex_db0
   \<and> get_latest_file_nr ex_db0 = get_latest_file_nr init_table
   \<and> get_latest_file_nr ex_db0 \<noteq> ''None''"
proof -
  have ne: "visible ex_db0 \<noteq> []" by (simp add: ex_db0_def)
  have mx: "Max (snd ` set (visible ex_db0)) = ''00000''" by (simp add: ex_db0_def)
  from C10_empty_store_sentinel [of ex_cat ex_db0] ne mx reachable_ex_db0 show ?thesis by simp
qed

text \<open>
  C9. Every store the program reaches holds at most one row for a hash, in what the
  connection sees and in what is committed; \<^verbatim>\<open>insert_hashes\<close> keeps this for every
  batch. A run never ends with the \<^verbatim>\<open>IntegrityError\<close> of a repeated hash, and against
  any two shards, whatever hashes they share, the run from the new table returns
  normally with such a store.
\<close>

theorem C9_unique_hashes:
  "(reachable c \<longrightarrow> distinct (map fst (visible c)) \<and> distinct (map fst (committed c)))
   \<and> (unique_hashes c \<longrightarrow> unique_hashes (insert_hashes hs c))
   \<and> (download_files cat w = Some (r, w') \<longrightarrow> r \<noteq> Inl IntegrityError)
   \<and> (\<exists>w1. download_files (two_shards ls0 ls1) (start_world init_table) = Some (Inr (), w1)
            \<and> unique_hashes (db w1))"
proof -
  have "reachable c \<longrightarrow> distinct (map fst (visible c)) \<and> distinct (map fst (committed c))"
    using reachable_inv [of c] by (simp add: unique_hashes_def)
  moreover have "download_files cat w = Some (r, w') \<longrightarrow> r \<noteq> Inl IntegrityError"
    using download_files_exn [of cat w "(r, w')"] by simp
  ultimately show ?thesis
    using two_shards_run [of ls0 ls1] by (simp add: insert_hashes_unique)
qed

theorem C9_unique_hashes_witness:
  "reachable ex_db1 \<and> unique_hashes ex_db0
   \<and> download_files ex_cat (start_world init_table) = Some (Inr (), ex_w1)
   \<and> distinct (map fst (visible ex_db1)) \<and> distinct (map fst (committed ex_db1))
   \<and> unique_hashes (insert_hashes [(''h3'', ''00001''), (''h1'', ''00001''), (''h4'', ''00001'')] ex_db0)
   \<and> Inr () \<noteq> (Inl IntegrityError :: exn + unit)"
proof -
  have u: "unique_hashes ex_db0" by (simp add: unique_hashes_def ex_db0_def)
  from C9_unique_hashes [of ex_db1 "[]" ex_cat "start_world init_table" "Inr ()" ex_w1 "[]" "[]"]
  have a: "distinct (map fst (visible ex_db1)) \<and> distinct (map fst (committed ex_db1))"
    using reachable_ex_db1 by blast
  from C9_unique_hashes [of ex_db0 "[(''h3'', ''00001''), (''h1'', ''00001''), (''h4'', ''00001'')]"
      ex_cat "start_world init_table" "Inr ()" ex_w1 "[]" "[]"]
  have b: "unique_hashes (insert_hashes [(''h3'', ''00001''), (''h1'', ''00001''), (''h4'', ''00001'')] ex_db0)"
    using u by blast
  from a b u reachable_ex_db1 ex_run1 show ?thesis by simp
qed

text \<open>
  C2 on the code. The store holds h1; the batch of the second shard is h3, h1, h4.
  The insert of h1 fails, h4 is never inserted and nothing is committed. When the
  repeated hash comes first, the whole batch is dropped.
\<close>

theorem C2_duplicate_drops_rest_of_batch:
  "insert_hashes [(''h3'', ''00001''), (''h1'', ''00001''), (''h4'', ''00001'')] ex_db0 = ex_db1
   \<and> \<not> hash_exists ''h4'' ex_db1
   \<and> ''h4'' \<notin> fst ` set (committed ex_db1) \<and> ''h3'' \<notin> fst ` set (committed ex_db1)
   \<and> insert_hashes [(''h1'', ''00001''), (''h4'', ''00001'')] ex_db0 = ex_db0"
  by code_simp

text \<open>
  C3 on the code. The table is new and the server answers 500 for the file 00001:
  \<^verbatim>\<open>db_is_updated\<close> returns \<^verbatim>\<open>None\<close>, the loop is entered, the file 00000 is fetched and
  its hashes are inserted.
\<close>

theorem C3_probe_error_enters_loop:
  "ex_cat_err (url_of ''00001'') = HTTPErr 500
   \<and> fst (db_is_updated ex_cat_err (start_world init_table)) = Inr None
   \<and> download_files ex_cat_err (start_world init_table) =
       Some (Inr (), \<lparr>db = ex_db0,
                       fetched = [url_of ''00001'', url_of ''00000'', url_of ''00001''],
                       batches = [[(''h1'', ''00000''), (''h2'', ''00000'')]]\<rparr>)"
  by code_simp

text \<open>
  C4, as the claim states it, fails. The batch h3, h1, h4 on a store that holds h1
  leaves h3 visible and h4 not; the call returns and the run that made it ends
  normally; the commit of the next batch makes h3 durable, without h4.
\<close>

theorem C4_partial_batch_counterexample:
  "visible (insert_hashes [(''h3'', ''00001''), (''h1'', ''00001''), (''h4'', ''00001'')] ex_db0)
     = [(''h1'', ''00000''), (''h2'', ''00000''), (''h3'', ''00001'')]
   \<and> download_files ex_cat (start_world init_table) = Some (Inr (), ex_w1)
   \<and> committed (insert_hashes [(''h5'', ''00002'')]
        (insert_hashes [(''h3'', ''00001''), (''h1'', ''00001''), (''h4'', ''00001'')] ex_db0))
     = [(''h1'', ''00000''), (''h2'', ''00000''), (''h3'', ''00001''), (''h5'', ''00002'')]"
  by code_simp

text \<open>
  C4, as the code has it. A batch without a conflict, within itself or with the rows
  the connection sees, is inserted whole and committed by the same call. With a
  conflict the call commits nothing; the error stays inside \<^verbatim>\<open>insert_hashes\<close>, and no
  run ends with it.
\<close>

theorem C4_commit_or_absorb:
  "(distinct (map fst hs) \<and> fst ` set hs \<inter> fst ` set (visible c) = {}
      \<longrightarrow> insert_hashes hs c = \<lparr>committed = visible c @ hs, visible = visible c @ hs\<rparr>)
   \<and> (\<not> (distinct (map fst hs) \<and> fst ` set hs \<inter> fst ` set (visible c) = {})
      \<longrightarrow> committed (insert_hashes hs c) = committed c)
   \<and> (download_files cat w = Some (r, w') \<longrightarrow> r \<noteq> Inl IntegrityError)"
  using insert_hashes_ok [of hs c] insert_hashes_fail [of hs c]
    download_files_exn [of cat w "(r, w')"]
  by simp

theorem C4_commit_or_absorb_witness:
  "insert_hashes [(''h5'', ''00002'')] ex_db0
     = \<lparr>committed = visible ex_db0 @ [(''h5'', ''00002'')], visible = visible ex_db0 @ [(''h5'', ''00002'')]\<rparr>
   \<and> committed (insert_hashes [(''h3'', ''00001''), (''h1'', ''00001''), (''h4'', ''00001'')] ex_db0)
     = committed ex_db0
   \<and> download_files ex_cat (start_world init_table) = Some (Inr (), ex_w1)
   \<and> Inr () \<noteq> (Inl IntegrityError :: exn + unit)"
proof -
  have ok: "distinct (map fst [(''h5'', ''00002'')])
            \<and> fst ` set [(''h5'', ''00002'')] \<inter> fst ` set (visible ex_db0) = {}"
    by (simp add: ex_db0_def)
  have bad: "\<not> (distinct (map fst [(''h3'', ''00001''), (''h1'', ''00001''), (''h4'', ''00001'')])
            \<and> fst ` set [(''h3'', ''00001''), (''h1'', ''00001''), (''h4'', ''00001'')]
                \<inter> fst ` set (visible ex_db0) = {})"
    by (simp add: ex_db0_def)
  from C4_commit_or_absorb [of "[(''h5'', ''00002'')]" ex_db0 ex_cat "start_world init_table" "Inr ()" ex_w1] ok
  have a: "insert_hashes [(''h5'', ''00002'')] ex_db0
     = \<lparr>committed = visible ex_db0 @ [(''h5'', ''00002'')], visible = visible ex_db0 @ [(''h5'', ''00002'')]\<rparr>"
    by blast
  from C4_commit_or_absorb [of "[(''h3'', ''00001''), (''h1'', ''00001''), (''h4'', ''00001'')]" ex_db0
      ex_cat "start_world init_table" "Inr ()" ex_w1] bad
  have b: "committed (insert_hashes [(''h3'', ''00001''), (''h1'', ''00001''), (''h4'', ''00001'')] ex_db0)
     = committed ex_db0" by blast
  from a b ex_run1 show ?thesis by simp
qed

text \<open>
  C8, as the claim states it, fails: an empty line is not a comment, so it is turned
  into a record whose hash is the empty string.
\<close>

theorem C8_empty_line_counterexample:
  "collect_hashes [[newline]] ''00000'' = [([], ''00000'')]"
  by code_simp

text \<open>
  C8, as the code has it. In a shard whose lines end with a newline and are otherwise
  made of plain characters, the lines that begin with the comment marker give no
  record, and every other line, the empty one included, gives one record, whose hash
  is the text of the line, in the order of the shard.
\<close>

theorem C8_plain_lines:
  "list_all (list_all plain_char) texts \<Longrightarrow>
   collect_hashes (map (\<lambda>s. s @ [newline]) texts) nr =
   map (\<lambda>s. (s, nr)) (filter (\<lambda>s. \<not> startswith s ''#'') texts)"
  by (rule collect_hashes_plain)

theorem C8_plain_lines_witness:
  "list_all (list_all plain_char) [''# c'', ''h1'', [], ''h2'']
   \<and> collect_hashes (map (\<lambda>s. s @ [newline]) [''# c'', ''h1'', [], ''h2'']) ''00000''
     = [(''h1'', ''00000''), ([], ''00000''), (''h2'', ''00000'')]"
proof -
  have p: "list_all (list_all plain_char) [''# c'', ''h1'', [], ''h2'']" by code_simp
  have f: "filter (\<lambda>s. \<not> startswith s ''#'') [''# c'', ''h1'', [], ''h2''] = [''h1'', [], ''h2'']"
    by code_simp
  from C8_plain_lines [OF p, of "''00000''"] f p show ?thesis by simp
qed

text \<open>
  Outside the plain lines: a comment line that holds an apostrophe is quoted with
  double quotes by \<^verbatim>\<open>str\<close>, keeps its wrapper, and is stored as a hash.
\<close>

lemma comment_with_apostrophe_is_stored:
  "collect_hashes [''#it'' @ [squote] @ ''s'' @ [newline]] ''00000''
   = [(''b'' @ [dquote] @ ''#it'' @ [squote] @ ''s'' @ [backslash] @ ''n'' @ [dquote], ''00000'')]"
  by code_simp

end
